theory Spec2Isabelle
  imports Complex_Main
begin

section \<open>The timer page (SolverPage): data model\<close>

text \<open>
  The page is a React component: a set of state variables (\<open>useState\<close>), a set of
  mutable refs (\<open>useRef\<close>) and handlers that the browser calls one at a time. The model
  is one record holding the component's state and refs together with the part of the
  browser the handlers talk to: the pending animation-frame callbacks, the pending
  timeouts, the API calls that have not settled yet, and a trace of every call the page
  makes to the browser and to the API client, in the order the source makes them.

  Clock readings are real numbers of milliseconds, and a task reads one clock value however
  often it asks; the timeouts run on the same clock. Left out is what no handler reads:
  the live statistics, which are only displayed, the lines logged when a scoring or
  statistics call fails, and the Copy button, which writes to the clipboard and nothing
  else. A missing state encoding is the empty string, the value the state starts with.
\<close>

datatype TimerState = idle | arming | ready | inspection | running | stopped

definition INSPECTION_MS :: real where "INSPECTION_MS = 15000"
definition LATE_PLUS2_MS :: real where "LATE_PLUS2_MS = 2000"
definition ARMING_THRESHOLD_MS :: real where "ARMING_THRESHOLD_MS = 500"

text \<open>Of a solve the page reads the id and the score fields; the score fields are all
  copied together from the scorer's answer, so one of them (\<open>mlScore\<close>) stands for them.\<close>

record Solve =
  solveId :: nat
  mlScore :: "real option"

text \<open>The argument of \<open>apiClient.createSolve\<close>; \<open>null\<close> and \<open>undefined\<close> are \<open>None\<close>.\<close>

record CreateSolveRequest =
  reqScramble :: string
  reqTimeMs :: int
  reqPenalty :: "string option"
  reqSource :: string
  reqEvent :: string
  reqState :: "string option"

text \<open>The two tick closures handed to \<open>requestAnimationFrame\<close> and the two closures
  handed to \<open>setTimeout\<close>.\<close>

datatype frameCallback = StopwatchTick | InspectionTick

datatype timerCallback = ArmingTimeout | ClearSavingMessage

text \<open>Everything the page calls outside itself, recorded in source order.\<close>

datatype effect =
    PerformanceNow real
  | CancelAnimationFrame nat
  | RequestAnimationFrame nat frameCallback
  | RunAnimationFrame nat frameCallback
  | SetTimeout nat real timerCallback
  | ClearTimeout nat
  | LocalStorageSet bool
  | Confirm bool
  | GetScramble
  | GetLiveStats
  | CreateSolve CreateSolveRequest
  | ScoreSolve nat
  | UpdateSolve nat "string option"
  | GetOptimalSolution string

text \<open>An \<open>async\<close> function suspended at an \<open>await\<close>: which function, at which
  \<open>await\<close>, with the local variables its continuation reads.\<close>

datatype awaiting =
    SaveCreateSolve string
  | SaveScoreSolve nat
  | SaveLoadNewScramble
  | LoadNewScramble
  | LoadStats
  | UpdatePenalty string
  | ScoreSolveManual nat
  | RevealOptimal

datatype response =
    SolveResponse Solve
  | ScoreResponse real
  | ScrambleResponse string string
  | StatsResponse
  | UpdateResponse
  | SolutionResponse "string list"

datatype outcome = Resolved response | Rejected

record page =
  scramble :: string
  scrambleState :: string
  timerState :: TimerState
  currentTime :: int
  lastSolve :: "Solve option"
  inspectionEnabled :: bool
  lastSolvePenalty :: string
  loading :: bool
  error :: string
  savingMessage :: string
  optimalSolutionMoves :: "string list option"
  solutionLoading :: bool
  inspectionMsLeft :: real
  inspectionOverMs :: real
  startTimeRef :: real
  animationFrameRef :: nat
  spaceDownTimeRef :: real
  armingTimeoutRef :: nat
  inspectionStartRef :: real
  inspectionRafRef :: nat
  timerStateRef :: TimerState
  loadingRef :: bool
  mounted :: bool
  frames :: "(nat \<times> frameCallback) list"
  nextFrameHandle :: nat
  timers :: "(nat \<times> real \<times> timerCallback) list"
  nextTimerHandle :: nat
  inflight :: "awaiting list"
  trace :: "effect list"

section \<open>The browser: animation frames, timeouts, API calls\<close>

definition emit :: "effect \<Rightarrow> page \<Rightarrow> page" where
  "emit e w = w\<lparr>trace := trace w @ [e]\<rparr>"

text \<open>\<open>performance.now()\<close>: the reading is the time of the task that is running.\<close>

definition performanceNow :: "real \<Rightarrow> page \<Rightarrow> page" where
  "performanceNow now w = emit (PerformanceNow now) w"

text \<open>\<open>requestAnimationFrame\<close> and \<open>setTimeout\<close> return the handle they issue, which is
  the counter's value before the call; handles start at 1, so 0 is never a handle.\<close>

definition requestAnimationFrame :: "frameCallback \<Rightarrow> page \<Rightarrow> page" where
  "requestAnimationFrame cb w =
     emit (RequestAnimationFrame (nextFrameHandle w) cb)
       (w\<lparr>frames := frames w @ [(nextFrameHandle w, cb)],
          nextFrameHandle := Suc (nextFrameHandle w)\<rparr>)"

definition cancelAnimationFrame :: "nat \<Rightarrow> page \<Rightarrow> page" where
  "cancelAnimationFrame h w =
     emit (CancelAnimationFrame h) (w\<lparr>frames := filter (\<lambda>f. fst f \<noteq> h) (frames w)\<rparr>)"

definition setTimeout :: "timerCallback \<Rightarrow> real \<Rightarrow> real \<Rightarrow> page \<Rightarrow> page" where
  "setTimeout cb delay now w =
     emit (SetTimeout (nextTimerHandle w) delay cb)
       (w\<lparr>timers := timers w @ [(nextTimerHandle w, now + delay, cb)],
          nextTimerHandle := Suc (nextTimerHandle w)\<rparr>)"

definition clearTimeout :: "nat \<Rightarrow> page \<Rightarrow> page" where
  "clearTimeout h w =
     emit (ClearTimeout h) (w\<lparr>timers := filter (\<lambda>t. fst t \<noteq> h) (timers w)\<rparr>)"

text \<open>Calling the API client: the call goes out and the caller is suspended at its
  \<open>await\<close> until the call settles.\<close>

definition callApi :: "effect \<Rightarrow> awaiting \<Rightarrow> page \<Rightarrow> page" where
  "callApi e k w = emit e (w\<lparr>inflight := inflight w @ [k]\<rparr>)"

section \<open>The component\<close>

text \<open>The two effects that copy \<open>timerState\<close> and \<open>loading\<close> into their refs after
  a render.\<close>

definition render :: "page \<Rightarrow> page" where
  "render w = w\<lparr>timerStateRef := timerState w, loadingRef := loading w\<rparr>"

definition toggleInspection :: "page \<Rightarrow> page" where
  "toggleInspection w =
     emit (LocalStorageSet (\<not> inspectionEnabled w))
       (w\<lparr>inspectionEnabled := \<not> inspectionEnabled w\<rparr>)"

text \<open>\<open>loadNewScramble\<close> up to its \<open>await\<close>; \<open>k\<close> says who is waiting for it (the
  function itself, or \<open>saveSolveImmediately\<close> awaiting it).\<close>

definition loadNewScramble :: "awaiting \<Rightarrow> page \<Rightarrow> page" where
  "loadNewScramble k w =
     callApi GetScramble k (w\<lparr>error := [], optimalSolutionMoves := None\<rparr>)"

definition loadStats :: "page \<Rightarrow> page" where
  "loadStats w = callApi GetLiveStats LoadStats w"

definition saveSolveImmediately :: "int \<Rightarrow> string \<Rightarrow> page \<Rightarrow> page" where
  "saveSolveImmediately timeMs autoPenalty w =
     callApi
       (CreateSolve \<lparr>reqScramble = scramble w, reqTimeMs = timeMs,
          reqPenalty = (if autoPenalty = ''OK'' then None else Some autoPenalty),
          reqSource = ''timer'', reqEvent = ''3x3'',
          reqState = (if scrambleState w = [] then None else Some (scrambleState w))\<rparr>)
       (SaveCreateSolve autoPenalty)
       (w\<lparr>loading := True, savingMessage := ''Saving...'', error := []\<rparr>)"

definition stopInspection :: "page \<Rightarrow> page" where
  "stopInspection w =
     (if inspectionRafRef w \<noteq> 0
      then (cancelAnimationFrame (inspectionRafRef w) w)\<lparr>inspectionRafRef := 0\<rparr>
      else w)"

definition cancelStopwatch :: "page \<Rightarrow> page" where
  "cancelStopwatch w =
     (if animationFrameRef w \<noteq> 0
      then (cancelAnimationFrame (animationFrameRef w) w)\<lparr>animationFrameRef := 0\<rparr>
      else w)"

definition startTimer :: "real \<Rightarrow> page \<Rightarrow> page" where
  "startTimer now w =
     (if loadingRef w then w
      else
        let w1 = cancelStopwatch w;
            w2 = (performanceNow now w1)
                   \<lparr>startTimeRef := now, timerState := running, currentTime := 0\<rparr>
        in (requestAnimationFrame StopwatchTick w2)\<lparr>animationFrameRef := nextFrameHandle w2\<rparr>)"

definition startInspection :: "real \<Rightarrow> page \<Rightarrow> page" where
  "startInspection now w =
     (if loadingRef w then w
      else
        let w1 = stopInspection (cancelStopwatch w);
            w2 = (performanceNow now w1)
                   \<lparr>inspectionStartRef := now, inspectionMsLeft := INSPECTION_MS,
                    inspectionOverMs := 0, timerState := inspection\<rparr>
        in (requestAnimationFrame InspectionTick w2)\<lparr>inspectionRafRef := nextFrameHandle w2\<rparr>)"

definition beginSolveFromInspection :: "real \<Rightarrow> page \<Rightarrow> page" where
  "beginSolveFromInspection now w =
     (if loadingRef w then w else startTimer now (stopInspection w))"

definition autoPenaltyOf :: "bool \<Rightarrow> real \<Rightarrow> string" where
  "autoPenaltyOf enabled overMs =
     (if enabled \<and> overMs > LATE_PLUS2_MS then ''DNF''
      else if enabled \<and> overMs > 0 then ''+2''
      else ''OK'')"

definition stopTimer :: "real \<Rightarrow> page \<Rightarrow> page" where
  "stopTimer now w =
     (let w1 = performanceNow now (cancelStopwatch w);
          finalTime = \<lfloor>now - startTimeRef w1\<rfloor>;
          autoPenalty = autoPenaltyOf (inspectionEnabled w) (inspectionOverMs w)
      in (saveSolveImmediately finalTime autoPenalty w1)
           \<lparr>currentTime := 0, timerState := idle\<rparr>)"

text \<open>The tick closures. Each reads the clock, publishes the derived time and asks for the
  next frame.\<close>

fun runFrame :: "real \<Rightarrow> nat \<times> frameCallback \<Rightarrow> page \<Rightarrow> page" where
  "runFrame now (h, StopwatchTick) w =
     (let w1 = performanceNow now (emit (RunAnimationFrame h StopwatchTick) w);
          w2 = w1\<lparr>currentTime := \<lfloor>now - startTimeRef w1\<rfloor>\<rparr>
      in (requestAnimationFrame StopwatchTick w2)\<lparr>animationFrameRef := nextFrameHandle w2\<rparr>)"
| "runFrame now (h, InspectionTick) w =
     (let w1 = performanceNow now (emit (RunAnimationFrame h InspectionTick) w);
          elapsed = now - inspectionStartRef w1;
          w2 = w1\<lparr>inspectionMsLeft := max 0 (INSPECTION_MS - elapsed),
                 inspectionOverMs := max 0 (elapsed - INSPECTION_MS)\<rparr>
      in (requestAnimationFrame InspectionTick w2)\<lparr>inspectionRafRef := nextFrameHandle w2\<rparr>)"

text \<open>The closures handed to \<open>setTimeout\<close>.\<close>

fun runTimer :: "timerCallback \<Rightarrow> page \<Rightarrow> page" where
  "runTimer ArmingTimeout w =
     (if timerStateRef w = arming then w\<lparr>timerState := ready\<rparr> else w)"
| "runTimer ClearSavingMessage w = w\<lparr>savingMessage := []\<rparr>"

section \<open>Handlers\<close>

text \<open>\<open>now\<close> is the clock reading of the task in which the handler runs; the key-down
  handler also takes the reading of \<open>Date.now()\<close>, which it stores and never reads
  again.\<close>

definition handleSpaceDown :: "real \<Rightarrow> real \<Rightarrow> page \<Rightarrow> page" where
  "handleSpaceDown wall now w =
     (if loadingRef w then w
      else if timerStateRef w = idle then
        (let w1 = w\<lparr>spaceDownTimeRef := wall, timerState := arming\<rparr>
         in (setTimeout ArmingTimeout ARMING_THRESHOLD_MS now w1)
              \<lparr>armingTimeoutRef := nextTimerHandle w1\<rparr>)
      else if timerStateRef w = inspection then beginSolveFromInspection now w
      else if timerStateRef w = running then stopTimer now w
      else w)"

definition handleSpaceUp :: "real \<Rightarrow> page \<Rightarrow> page" where
  "handleSpaceUp now w =
     (if loadingRef w then w
      else
        let w1 = (if armingTimeoutRef w \<noteq> 0
                  then (clearTimeout (armingTimeoutRef w) w)\<lparr>armingTimeoutRef := 0\<rparr>
                  else w)
        in if timerStateRef w = arming then w1\<lparr>timerState := idle\<rparr>
           else if timerStateRef w = ready then
             (if inspectionEnabled w then startInspection now w1 else startTimer now w1)
           else w1)"

definition handleManualStart :: "real \<Rightarrow> page \<Rightarrow> page" where
  "handleManualStart now w =
     (if loading w then w
      else if timerState w = idle then
        (if inspectionEnabled w then startInspection now w else startTimer now w)
      else if timerState w = inspection then beginSolveFromInspection now w
      else if timerState w = running then stopTimer now w
      else w)"

definition handleUpdateLastSolvePenalty :: "string \<Rightarrow> page \<Rightarrow> page" where
  "handleUpdateLastSolvePenalty newPenalty w =
     (case lastSolve w of
        None \<Rightarrow> w
      | Some sv \<Rightarrow>
          callApi
            (UpdateSolve (solveId sv) (if newPenalty = ''OK'' then None else Some newPenalty))
            (UpdatePenalty newPenalty)
            (w\<lparr>loading := True, error := []\<rparr>))"

definition handleScoreSolve :: "nat \<Rightarrow> page \<Rightarrow> page" where
  "handleScoreSolve i w = callApi (ScoreSolve i) (ScoreSolveManual i) w"

text \<open>\<open>ok\<close> is the user's answer to \<open>window.confirm\<close>.\<close>

definition handleRevealOptimalSolution :: "bool \<Rightarrow> page \<Rightarrow> page" where
  "handleRevealOptimalSolution ok w =
     (if timerState w = running \<or> loading w \<or> solutionLoading w then w
      else
        let w1 = emit (Confirm ok) w
        in if \<not> ok then w1
           else if scrambleState w = [] \<or> length (scrambleState w) \<noteq> 54 then
             w1\<lparr>error := ''Missing cube state for this scramble. (Expected 54 chars.)''\<rparr>
           else
             callApi (GetOptimalSolution (scrambleState w)) RevealOptimal
               (w1\<lparr>solutionLoading := True, error := []\<rparr>))"

text \<open>The cleanup that runs when the component is removed.\<close>

definition unmount :: "page \<Rightarrow> page" where
  "unmount w =
     (let w1 = stopInspection (cancelStopwatch w);
          w2 = (if armingTimeoutRef w1 \<noteq> 0
                then (clearTimeout (armingTimeoutRef w1) w1)\<lparr>armingTimeoutRef := 0\<rparr>
                else w1)
      in w2\<lparr>mounted := False\<rparr>)"

section \<open>Continuations of the asynchronous functions\<close>

definition mergeScore :: "nat \<Rightarrow> real \<Rightarrow> Solve option \<Rightarrow> Solve option" where
  "mergeScore i sc prev =
     (case prev of
        None \<Rightarrow> None
      | Some sv \<Rightarrow> if solveId sv = i then Some (sv\<lparr>mlScore := Some sc\<rparr>) else Some sv)"

text \<open>\<open>Saved\<close> followed by U+2713, here in UTF-8.\<close>

definition savedMessage :: string where
  "savedMessage = ''Saved '' @ [CHR 0xE2, CHR 0x9C, CHR 0x93]"

text \<open>What the suspended function does when its call settles. A response of the wrong
  shape for the call is not a response the typed API client can deliver: \<open>None\<close>.\<close>

fun scrambleSettled :: "outcome \<Rightarrow> page \<Rightarrow> page option" where
  "scrambleSettled (Resolved (ScrambleResponse sc st)) w =
     Some (w\<lparr>scramble := sc, scrambleState := st\<rparr>)"
| "scrambleSettled Rejected w = Some (w\<lparr>error := ''Failed to load scramble''\<rparr>)"
| "scrambleSettled _ w = None"

fun resume :: "real \<Rightarrow> awaiting \<Rightarrow> outcome \<Rightarrow> page \<Rightarrow> page option" where
  "resume now (SaveCreateSolve autoPenalty) (Resolved (SolveResponse sv)) w =
     Some (callApi (ScoreSolve (solveId sv)) (SaveScoreSolve (solveId sv))
             (w\<lparr>lastSolve := Some sv, lastSolvePenalty := autoPenalty,
                savingMessage := savedMessage\<rparr>))"
| "resume now (SaveCreateSolve autoPenalty) Rejected w =
     Some (w\<lparr>error := ''Failed to save solve'', savingMessage := [], loading := False\<rparr>)"
| "resume now (SaveScoreSolve i) (Resolved (ScoreResponse sc)) w =
     Some (loadNewScramble SaveLoadNewScramble
             (loadStats (w\<lparr>lastSolve := mergeScore i sc (lastSolve w)\<rparr>)))"
| "resume now (SaveScoreSolve i) Rejected w = Some (loadNewScramble SaveLoadNewScramble w)"
| "resume now SaveLoadNewScramble out w =
     (case scrambleSettled out w of
        None \<Rightarrow> None
      | Some w1 \<Rightarrow> Some ((setTimeout ClearSavingMessage 2000 now w1)\<lparr>loading := False\<rparr>))"
| "resume now LoadNewScramble out w = scrambleSettled out w"
| "resume now LoadStats (Resolved StatsResponse) w = Some w"
| "resume now LoadStats Rejected w = Some w"
| "resume now (UpdatePenalty newPenalty) (Resolved UpdateResponse) w =
     Some ((loadStats (w\<lparr>lastSolvePenalty := newPenalty\<rparr>))\<lparr>loading := False\<rparr>)"
| "resume now (UpdatePenalty newPenalty) Rejected w =
     Some (w\<lparr>error := ''Failed to update penalty'', loading := False\<rparr>)"
| "resume now (ScoreSolveManual i) (Resolved (ScoreResponse sc)) w =
     Some (loadStats (w\<lparr>lastSolve := mergeScore i sc (lastSolve w)\<rparr>))"
| "resume now (ScoreSolveManual i) Rejected w = Some (w\<lparr>error := ''Failed to score solve''\<rparr>)"
| "resume now RevealOptimal (Resolved (SolutionResponse ms)) w =
     Some (w\<lparr>optimalSolutionMoves := Some ms, solutionLoading := False\<rparr>)"
| "resume now RevealOptimal Rejected w =
     Some (w\<lparr>error := ''Failed to compute optimal solution.'', solutionLoading := False\<rparr>)"
| "resume now _ _ w = None"

text \<open>The \<open>i\<close>-th call in flight settles.\<close>

definition settle :: "real \<Rightarrow> nat \<Rightarrow> outcome \<Rightarrow> page \<Rightarrow> page" where
  "settle now i out w =
     (if i < length (inflight w) then
        (case resume now (inflight w ! i) out
                (w\<lparr>inflight := take i (inflight w) @ drop (Suc i) (inflight w)\<rparr>) of
           None \<Rightarrow> w
         | Some w1 \<Rightarrow> w1)
      else w)"

section \<open>Events\<close>

text \<open>
  What the browser can hand to the page: the space key going down and up, a click on one
  of the page's buttons, an animation frame, an API call settling, and the removal of the
  component. A disabled button delivers no click, so each click carries the button's
  \<open>disabled\<close> condition from the page's markup; the three penalty buttons and the score
  button exist only while there is a last solve.
\<close>

datatype penaltyButton = ButtonOK | ButtonPlus2 | ButtonDNF

fun buttonPenalty :: "penaltyButton \<Rightarrow> string" where
  "buttonPenalty ButtonOK = ''OK''"
| "buttonPenalty ButtonPlus2 = ''+2''"
| "buttonPenalty ButtonDNF = ''DNF''"

datatype event =
    KeyDownSpace real
  | KeyUpSpace
  | ClickStart
  | ClickInspectionToggle
  | ClickNewScramble
  | ClickRevealOptimal bool
  | ClickPenalty penaltyButton
  | ClickScoreSolve
  | ClickRefreshStats
  | AnimationFrame
  | Settle nat outcome
  | Unmount

text \<open>An animation frame runs the callbacks that were pending when the frame began;
  callbacks requested during the frame wait for the next one.\<close>

definition animationFrame :: "real \<Rightarrow> page \<Rightarrow> page" where
  "animationFrame now w = foldl (\<lambda>v f. runFrame now f v) (w\<lparr>frames := []\<rparr>) (frames w)"

fun handle :: "real \<Rightarrow> event \<Rightarrow> page \<Rightarrow> page" where
  "handle now (KeyDownSpace wall) w = handleSpaceDown wall now w"
| "handle now KeyUpSpace w = handleSpaceUp now w"
| "handle now ClickStart w = (if loading w then w else handleManualStart now w)"
| "handle now ClickInspectionToggle w =
     (if timerState w = running then w else toggleInspection w)"
| "handle now ClickNewScramble w =
     (if timerState w = running \<or> loading w \<or> solutionLoading w then w
      else loadNewScramble LoadNewScramble w)"
| "handle now (ClickRevealOptimal ok) w =
     (if timerState w = running \<or> loading w \<or> solutionLoading w then w
      else handleRevealOptimalSolution ok w)"
| "handle now (ClickPenalty b) w =
     (if lastSolve w = None \<or> loading w then w
      else handleUpdateLastSolvePenalty (buttonPenalty b) w)"
| "handle now ClickScoreSolve w =
     (case lastSolve w of
        None \<Rightarrow> w
      | Some sv \<Rightarrow>
          if mlScore sv \<noteq> None \<or> loading w then w else handleScoreSolve (solveId sv) w)"
| "handle now ClickRefreshStats w = (if loading w then w else loadStats w)"
| "handle now AnimationFrame w = animationFrame now w"
| "handle now (Settle i out) w = settle now i out w"
| "handle now Unmount w = unmount w"

text \<open>
  Timeouts: a timeout set at time \<open>t\<close> with delay \<open>d\<close> is due from \<open>t + d\<close> on. The
  browser is taken to run a due timeout before any later task, each callback followed by
  the render it causes.
\<close>

definition fireTimers :: "real \<Rightarrow> page \<Rightarrow> page" where
  "fireTimers now w =
     foldl (\<lambda>v t. render (runTimer (snd (snd t)) v))
       (w\<lparr>timers := filter (\<lambda>t. \<not> fst (snd t) \<le> now) (timers w)\<rparr>)
       (filter (\<lambda>t. fst (snd t) \<le> now) (timers w))"

text \<open>One task: the event \<open>ev\<close> arrives at time \<open>now\<close>. React renders after the
  handler, and the effects of that render run before the next task. After the component is
  removed its listeners are gone and its state no longer changes.\<close>

definition deliver :: "real \<Rightarrow> event \<Rightarrow> page \<Rightarrow> page" where
  "deliver now ev w = (if mounted w then render (handle now ev (fireTimers now w)) else w)"

fun run :: "page \<Rightarrow> (real \<times> event) list \<Rightarrow> page" where
  "run w [] = w"
| "run w ((now, ev) # es) = run (deliver now ev w) es"

text \<open>The component when it is first rendered, and after its mount effects have run:
  \<open>stored\<close> is what local storage holds under \<open>inspectionEnabled\<close>.\<close>

definition initial :: page where
  "initial =
     \<lparr>scramble = [], scrambleState = [], timerState = idle, currentTime = 0,
      lastSolve = None, inspectionEnabled = True, lastSolvePenalty = ''OK'',
      loading = False, error = [], savingMessage = [], optimalSolutionMoves = None,
      solutionLoading = False, inspectionMsLeft = INSPECTION_MS, inspectionOverMs = 0,
      startTimeRef = 0, animationFrameRef = 0, spaceDownTimeRef = 0, armingTimeoutRef = 0,
      inspectionStartRef = 0, inspectionRafRef = 0, timerStateRef = idle,
      loadingRef = False, mounted = True, frames = [], nextFrameHandle = 1, timers = [],
      nextTimerHandle = 1, inflight = [], trace = []\<rparr>"

definition mount :: "string option \<Rightarrow> page" where
  "mount stored =
     render (loadStats (loadNewScramble LoadNewScramble
       (initial\<lparr>inspectionEnabled :=
          (case stored of None \<Rightarrow> True | Some v \<Rightarrow> v = ''true'')\<rparr>)))"

inductive reachable :: "page \<Rightarrow> bool" where
  reachable_mount: "reachable (mount stored)"
| reachable_deliver: "reachable w \<Longrightarrow> reachable (deliver now ev w)"

section \<open>Invariant of the reachable states\<close>

text \<open>The calls that set \<open>loading\<close> while they are in flight: the three stages of
  \<open>saveSolveImmediately\<close> and the penalty update.\<close>

fun blocking :: "awaiting \<Rightarrow> bool" where
  "blocking (SaveCreateSolve p) = True"
| "blocking (SaveScoreSolve i) = True"
| "blocking SaveLoadNewScramble = True"
| "blocking (UpdatePenalty p) = True"
| "blocking LoadNewScramble = False"
| "blocking LoadStats = False"
| "blocking (ScoreSolveManual i) = False"
| "blocking RevealOptimal = False"

text \<open>Reading a trace for its clock loops: the handles of the frame callbacks pending
  after the trace, starting from the handles \<open>pend\<close>; \<open>None\<close> when the trace asks for
  a frame while another one is still pending.\<close>

fun loopsAfter :: "nat list \<Rightarrow> effect list \<Rightarrow> nat list option" where
  "loopsAfter pend [] = Some pend"
| "loopsAfter pend (CancelAnimationFrame h # es) = loopsAfter (removeAll h pend) es"
| "loopsAfter pend (RunAnimationFrame h cb # es) = loopsAfter (removeAll h pend) es"
| "loopsAfter pend (RequestAnimationFrame h cb # es) =
     (if pend = [] then loopsAfter [h] es else None)"
| "loopsAfter pend (e # es) = loopsAfter pend es"

text \<open>The frame callback the timer state accounts for.\<close>

definition clockLoops :: "page \<Rightarrow> (nat \<times> frameCallback) list" where
  "clockLoops w =
     (if timerState w = running then [(animationFrameRef w, StopwatchTick)]
      else if timerState w = inspection then [(inspectionRafRef w, InspectionTick)]
      else [])"

definition armingOnly ::
  "(nat \<times> real \<times> timerCallback) list \<Rightarrow> (nat \<times> real \<times> timerCallback) list" where
  "armingOnly ts = filter (\<lambda>t. snd (snd t) = ArmingTimeout) ts"

definition armDue :: "real \<Rightarrow> page \<Rightarrow> bool" where
  "armDue now w \<longleftrightarrow>
     (\<exists>t\<in>set (timers w). fst (snd t) \<le> now \<and> snd (snd t) = ArmingTimeout)"

definition clearDue :: "real \<Rightarrow> page \<Rightarrow> bool" where
  "clearDue now w \<longleftrightarrow>
     (\<exists>t\<in>set (timers w). fst (snd t) \<le> now \<and> snd (snd t) = ClearSavingMessage)"

definition pageInv :: "page \<Rightarrow> bool" where
  "pageInv w \<longleftrightarrow>
     timerStateRef w = timerState w \<and> loadingRef w = loading w \<and>
     timerState w \<noteq> stopped \<and> 0 \<le> inspectionOverMs w \<and>
     (loading w \<longrightarrow> length (filter blocking (inflight w)) = 1) \<and>
     (\<not> loading w \<longrightarrow> filter blocking (inflight w) = []) \<and>
     loopsAfter [] (trace w) = Some (map fst (frames w)) \<and>
     frames w = (if mounted w then clockLoops w else []) \<and>
     (mounted w \<longrightarrow> (animationFrameRef w \<noteq> 0 \<longleftrightarrow> timerState w = running)) \<and>
     (mounted w \<longrightarrow> (inspectionRafRef w \<noteq> 0 \<longleftrightarrow> timerState w = inspection)) \<and>
     (mounted w \<and> timerState w = arming \<longrightarrow>
        armingTimeoutRef w \<noteq> 0 \<and>
        (\<exists>d. armingOnly (timers w) = [(armingTimeoutRef w, d, ArmingTimeout)])) \<and>
     (\<not> (mounted w \<and> timerState w = arming) \<longrightarrow> armingOnly (timers w) = []) \<and>
     0 < nextFrameHandle w \<and> 0 < nextTimerHandle w"

text \<open>What a settling API call leaves alone: everything the timer is made of.\<close>

definition sameTimer :: "page \<Rightarrow> page \<Rightarrow> bool" where
  "sameTimer v v1 \<longleftrightarrow>
     timerState v1 = timerState v \<and> timerStateRef v1 = timerState v1 \<and>
     loadingRef v1 = loading v1 \<and>
     inspectionOverMs v1 = inspectionOverMs v \<and> inspectionEnabled v1 = inspectionEnabled v \<and>
     frames v1 = frames v \<and> mounted v1 = mounted v \<and>
     animationFrameRef v1 = animationFrameRef v \<and> inspectionRafRef v1 = inspectionRafRef v \<and>
     armingTimeoutRef v1 = armingTimeoutRef v \<and> startTimeRef v1 = startTimeRef v \<and>
     nextFrameHandle v1 = nextFrameHandle v \<and> nextTimerHandle v \<le> nextTimerHandle v1 \<and>
     armingOnly (timers v1) = armingOnly (timers v) \<and>
     loopsAfter [] (trace v1) = loopsAfter [] (trace v)"

text \<open>The events that reach the three transition handlers.\<close>

definition timerEvent :: "event \<Rightarrow> bool" where
  "timerEvent ev \<longleftrightarrow>
     (case ev of KeyDownSpace wall \<Rightarrow> True | KeyUpSpace \<Rightarrow> True | ClickStart \<Rightarrow> True
      | _ \<Rightarrow> False)"

section \<open>Progress of a save\<close>

text \<open>How many calls a suspended save or penalty update may still have to wait for, this
  one included: \<open>createSolve\<close>, then \<open>scoreSolve\<close>, then \<open>getScramble\<close>.\<close>

fun stagesLeft :: "awaiting \<Rightarrow> nat" where
  "stagesLeft (SaveCreateSolve p) = 3"
| "stagesLeft (SaveScoreSolve i) = 2"
| "stagesLeft SaveLoadNewScramble = 1"
| "stagesLeft (UpdatePenalty p) = 1"
| "stagesLeft LoadNewScramble = 0"
| "stagesLeft LoadStats = 0"
| "stagesLeft (ScoreSolveManual i) = 0"
| "stagesLeft RevealOptimal = 0"

text \<open>The stages left over all calls in flight.\<close>

definition saveStages :: "page \<Rightarrow> nat" where
  "saveStages w = sum_list (map stagesLeft (inflight w))"

text \<open>The outcomes the typed API client can deliver for a call: a rejection, or the
  response of the call's own type.\<close>

fun answers :: "awaiting \<Rightarrow> outcome \<Rightarrow> bool" where
  "answers k Rejected = True"
| "answers (SaveCreateSolve p) (Resolved (SolveResponse sv)) = True"
| "answers (SaveScoreSolve i) (Resolved (ScoreResponse sc)) = True"
| "answers SaveLoadNewScramble (Resolved (ScrambleResponse sc st)) = True"
| "answers LoadNewScramble (Resolved (ScrambleResponse sc st)) = True"
| "answers LoadStats (Resolved StatsResponse) = True"
| "answers (UpdatePenalty p) (Resolved UpdateResponse) = True"
| "answers (ScoreSolveManual i) (Resolved (ScoreResponse sc)) = True"
| "answers RevealOptimal (Resolved (SolutionResponse ms)) = True"
| "answers k out = False"

section \<open>While the key is held\<close>



section \<open>The transition table of the specification\<close>

text \<open>The edges of the table in section 4.1 of the specification, as the specification
  lists them: this relation is read off the specification, not off the code.\<close>

fun specTransition :: "TimerState \<Rightarrow> TimerState \<Rightarrow> bool" where
  "specTransition idle arming = True"
| "specTransition arming idle = True"
| "specTransition arming ready = True"
| "specTransition ready inspection = True"
| "specTransition ready running = True"
| "specTransition inspection running = True"
| "specTransition running idle = True"
| "specTransition _ _ = False"

section \<open>Scenarios\<close>

text \<open>A late start: the key is held for 600 ms and released with inspection enabled; a
  frame at 16800 ms publishes an overrun of 1200 ms and the key goes down again, which
  starts the stopwatch.\<close>

definition lateStart :: page where
  "lateStart = run (mount None)
     [(0, KeyDownSpace 0), (600, KeyUpSpace), (16800, AnimationFrame), (16800, KeyDownSpace 0)]"

text \<open>The stop of that attempt 8000 ms later: the save is in flight.\<close>

definition saving :: page where
  "saving = deliver 24800 (KeyDownSpace 0) lateStart"

text \<open>The save fails at once.\<close>

definition saveFailed :: page where
  "saveFailed = deliver 24900 (Settle 2 Rejected) saving"

text \<open>The save goes through: the solve is stored, the scoring call fails (which the page
  only logs) and the next scramble arrives with the state of a solved cube.\<close>

definition solved54 :: string where
  "solved54 = ''UUUUUUUUURRRRRRRRRFFFFFFFFFDDDDDDDDDLLLLLLLLLBBBBBBBBB''"

definition saved :: page where
  "saved = run saving
     [(24900, Settle 2 (Resolved (SolveResponse \<lparr>solveId = 7, mlScore = None\<rparr>))),
      (25000, Settle 2 Rejected),
      (25100, Settle 2 (Resolved (ScrambleResponse ''R U R2 F'' solved54)))]"

text \<open>A second attempt, started with the button and running, with the first solve on
  display.\<close>

definition secondSolve :: page where
  "secondSolve = run saved [(30000, ClickStart), (31000, ClickStart)]"

section \<open>Proofs: the invariant\<close>

lemmas browser_defs = emit_def performanceNow_def requestAnimationFrame_def
  cancelAnimationFrame_def setTimeout_def clearTimeout_def callApi_def

lemmas timer_defs = stopInspection_def cancelStopwatch_def startTimer_def
  startInspection_def beginSolveFromInspection_def stopTimer_def saveSolveImmediately_def
  loadNewScramble_def loadStats_def toggleInspection_def

lemmas handler_defs = handleSpaceDown_def handleSpaceUp_def handleManualStart_def
  handleUpdateLastSolvePenalty_def handleScoreSolve_def handleRevealOptimalSolution_def
  unmount_def

lemma armingOnly_simps [simp]:
  "armingOnly [] = []"
  "armingOnly (ts @ us) = armingOnly ts @ armingOnly us"
  "armingOnly ((h, d, ArmingTimeout) # ts) = (h, d, ArmingTimeout) # armingOnly ts"
  "armingOnly ((h, d, ClearSavingMessage) # ts) = armingOnly ts"
  "armingOnly (filter P ts) = filter P (armingOnly ts)"
  by (auto simp: armingOnly_def conj_commute)

lemma armingOnly_due:
  "(\<exists>t\<in>set ts. fst (snd t) \<le> now \<and> snd (snd t) = ArmingTimeout) \<longleftrightarrow>
   (\<exists>t\<in>set (armingOnly ts). fst (snd t) \<le> now)"
  by (induction ts) (auto simp: armingOnly_def)

lemma armDue_armingOnly:
  "armDue now w \<longleftrightarrow> (\<exists>t\<in>set (armingOnly (timers w)). fst (snd t) \<le> now)"
  unfolding armDue_def by (rule armingOnly_due)

lemma loopsAfter_append:
  "loopsAfter p (xs @ ys) =
     (case loopsAfter p xs of None \<Rightarrow> None | Some q \<Rightarrow> loopsAfter q ys)"
  by (induction p xs rule: loopsAfter.induct) auto

lemma pageInv_mount: "pageInv (mount stored)"
  by (simp add: pageInv_def mount_def initial_def render_def timer_defs browser_defs
        clockLoops_def)

subsection \<open>Timeouts\<close>

lemma foldl_timers:
  "timerStateRef v = timerState v \<Longrightarrow> loadingRef v = loading v \<Longrightarrow>
   foldl (\<lambda>v t. render (runTimer (snd (snd t)) v)) v ts =
     v\<lparr>savingMessage :=
         (if ClearSavingMessage \<in> (snd \<circ> snd) ` set ts then [] else savingMessage v),
       timerState :=
         (if ArmingTimeout \<in> (snd \<circ> snd) ` set ts \<and> timerState v = arming then ready
          else timerState v),
       timerStateRef :=
         (if ArmingTimeout \<in> (snd \<circ> snd) ` set ts \<and> timerState v = arming then ready
          else timerState v)\<rparr>"
proof (induction ts arbitrary: v)
  case Nil
  then show ?case by simp
next
  case (Cons t ts)
  obtain h d cb where t: "t = (h, d, cb)" by (cases t) auto
  let ?v = "render (runTimer cb v)"
  have s: "timerStateRef ?v = timerState ?v" "loadingRef ?v = loading ?v"
    by (simp_all add: render_def)
  show ?case
    using Cons.prems Cons.IH[OF s] unfolding t
    by (cases cb) (auto simp: render_def)
qed

lemma fireTimers_eq:
  assumes "timerStateRef w = timerState w" "loadingRef w = loading w"
  shows "fireTimers now w =
     w\<lparr>timers := filter (\<lambda>t. \<not> fst (snd t) \<le> now) (timers w),
       savingMessage := (if clearDue now w then [] else savingMessage w),
       timerState := (if armDue now w \<and> timerState w = arming then ready else timerState w),
       timerStateRef :=
         (if armDue now w \<and> timerState w = arming then ready else timerState w)\<rparr>"
proof -
  let ?v = "w\<lparr>timers := filter (\<lambda>t. \<not> fst (snd t) \<le> now) (timers w)\<rparr>"
  have a: "timerStateRef ?v = timerState ?v" "loadingRef ?v = loading ?v"
    using assms by simp_all
  have "(c \<in> (snd \<circ> snd) ` set (filter (\<lambda>t. fst (snd t) \<le> now) ts)) =
          (\<exists>t\<in>set ts. fst (snd t) \<le> now \<and> snd (snd t) = c)"
    for c :: timerCallback and ts :: "(nat \<times> real \<times> timerCallback) list"
    by (induction ts) auto
  then have b:
    "(ClearSavingMessage \<in> (snd \<circ> snd) ` set (filter (\<lambda>t. fst (snd t) \<le> now) (timers w))) =
       clearDue now w"
    "(ArmingTimeout \<in> (snd \<circ> snd) ` set (filter (\<lambda>t. fst (snd t) \<le> now) (timers w))) =
       armDue now w"
    unfolding clearDue_def armDue_def by simp_all
  show ?thesis
    unfolding fireTimers_def foldl_timers[OF a] b by simp
qed

lemma pageInv_fireTimers:
  assumes "pageInv w"
  shows "pageInv (fireTimers now w)"
proof -
  have s: "timerStateRef w = timerState w" "loadingRef w = loading w"
    using assms by (simp_all add: pageInv_def)
  show ?thesis
  proof (cases "mounted w \<and> timerState w = arming")
    case True
    then obtain d where d: "armingOnly (timers w) = [(armingTimeoutRef w, d, ArmingTimeout)]"
      using assms by (auto simp: pageInv_def)
    show ?thesis using assms True d
      unfolding fireTimers_eq[OF s]
      by (simp add: pageInv_def clockLoops_def armDue_armingOnly)
  next
    case False
    then have "armingOnly (timers w) = []"
      using assms by (simp add: pageInv_def)
    then show ?thesis using assms False
      unfolding fireTimers_eq[OF s]
      by (simp add: pageInv_def clockLoops_def armDue_armingOnly)
  qed
qed

lemma fireTimers_fields:
  assumes "pageInv w"
  shows "mounted (fireTimers now w) = mounted w"
    and "trace (fireTimers now w) = trace w"
    and "inflight (fireTimers now w) = inflight w"
    and "frames (fireTimers now w) = frames w"
    and "loading (fireTimers now w) = loading w"
    and "loadingRef (fireTimers now w) = loadingRef w"
    and "inspectionEnabled (fireTimers now w) = inspectionEnabled w"
    and "inspectionOverMs (fireTimers now w) = inspectionOverMs w"
    and "startTimeRef (fireTimers now w) = startTimeRef w"
    and "animationFrameRef (fireTimers now w) = animationFrameRef w"
    and "inspectionRafRef (fireTimers now w) = inspectionRafRef w"
    and "armingTimeoutRef (fireTimers now w) = armingTimeoutRef w"
    and "nextFrameHandle (fireTimers now w) = nextFrameHandle w"
    and "nextTimerHandle (fireTimers now w) = nextTimerHandle w"
    and "scramble (fireTimers now w) = scramble w"
    and "scrambleState (fireTimers now w) = scrambleState w"
    and "lastSolve (fireTimers now w) = lastSolve w"
    and "solutionLoading (fireTimers now w) = solutionLoading w"
    and "error (fireTimers now w) = error w"
    and "timers (fireTimers now w) = filter (\<lambda>t. \<not> fst (snd t) \<le> now) (timers w)"
    and "timerStateRef (fireTimers now w) = timerState (fireTimers now w)"
    and "timerState (fireTimers now w) =
           (if armDue now w \<and> timerState w = arming then ready else timerState w)"
proof -
  have s: "timerStateRef w = timerState w" "loadingRef w = loading w"
    using assms by (simp_all add: pageInv_def)
  show "mounted (fireTimers now w) = mounted w"
    and "trace (fireTimers now w) = trace w"
    and "inflight (fireTimers now w) = inflight w"
    and "frames (fireTimers now w) = frames w"
    and "loading (fireTimers now w) = loading w"
    and "loadingRef (fireTimers now w) = loadingRef w"
    and "inspectionEnabled (fireTimers now w) = inspectionEnabled w"
    and "inspectionOverMs (fireTimers now w) = inspectionOverMs w"
    and "startTimeRef (fireTimers now w) = startTimeRef w"
    and "animationFrameRef (fireTimers now w) = animationFrameRef w"
    and "inspectionRafRef (fireTimers now w) = inspectionRafRef w"
    and "armingTimeoutRef (fireTimers now w) = armingTimeoutRef w"
    and "nextFrameHandle (fireTimers now w) = nextFrameHandle w"
    and "nextTimerHandle (fireTimers now w) = nextTimerHandle w"
    and "scramble (fireTimers now w) = scramble w"
    and "scrambleState (fireTimers now w) = scrambleState w"
    and "lastSolve (fireTimers now w) = lastSolve w"
    and "solutionLoading (fireTimers now w) = solutionLoading w"
    and "error (fireTimers now w) = error w"
    and "timers (fireTimers now w) = filter (\<lambda>t. \<not> fst (snd t) \<le> now) (timers w)"
    and "timerStateRef (fireTimers now w) = timerState (fireTimers now w)"
    and "timerState (fireTimers now w) =
           (if armDue now w \<and> timerState w = arming then ready else timerState w)"
    unfolding fireTimers_eq[OF s] by simp_all
qed

subsection \<open>Handlers\<close>

lemmas pageInv_simps = pageInv_def render_def handler_defs timer_defs browser_defs
  clockLoops_def loopsAfter_append Let_def

lemma pageInv_KeyDown:
  "pageInv w \<Longrightarrow> mounted w \<Longrightarrow> pageInv (render (handleSpaceDown wall now w))"
  by (cases "timerState w") (clarsimp simp: pageInv_simps)+

lemma pageInv_KeyUp:
  "pageInv w \<Longrightarrow> mounted w \<Longrightarrow> pageInv (render (handleSpaceUp now w))"
  by (cases "timerState w") (clarsimp simp: pageInv_simps)+

lemma pageInv_ManualStart:
  "pageInv w \<Longrightarrow> mounted w \<Longrightarrow> pageInv (render (handleManualStart now w))"
  by (cases "timerState w") (clarsimp simp: pageInv_simps)+

lemma pageInv_toggle:
  "pageInv w \<Longrightarrow> mounted w \<Longrightarrow> pageInv (render (toggleInspection w))"
  by (cases "timerState w") (clarsimp simp: pageInv_simps)+

lemma pageInv_calls:
  assumes "pageInv w" "mounted w"
  shows "pageInv (render (loadNewScramble LoadNewScramble w))"
    and "pageInv (render (loadStats w))"
    and "pageInv (render (handleScoreSolve i w))"
  using assms by (cases "timerState w"; clarsimp simp: pageInv_simps)+

lemma pageInv_penalty:
  "pageInv w \<Longrightarrow> mounted w \<Longrightarrow> \<not> loading w \<Longrightarrow>
   pageInv (render (handleUpdateLastSolvePenalty p w))"
  by (cases "timerState w"; cases "lastSolve w") (clarsimp simp: pageInv_simps)+

lemma pageInv_reveal:
  "pageInv w \<Longrightarrow> mounted w \<Longrightarrow> pageInv (render (handleRevealOptimalSolution ok w))"
  by (cases "timerState w") (clarsimp simp: pageInv_simps)+

lemma pageInv_unmount: "pageInv w \<Longrightarrow> mounted w \<Longrightarrow> pageInv (render (unmount w))"
  by (cases "timerState w") (clarsimp simp: pageInv_simps)+

lemma pageInv_animationFrame:
  "pageInv w \<Longrightarrow> mounted w \<Longrightarrow> pageInv (render (animationFrame now w))"
  by (cases "timerState w") (clarsimp simp: pageInv_simps animationFrame_def)+

subsection \<open>Settling calls\<close>

lemma filter_remove_nth:
  assumes "i < length xs"
  shows "length (filter P xs) =
         length (filter P (take i xs @ drop (Suc i) xs)) + (if P (xs ! i) then 1 else 0)"
proof -
  have "filter P xs = filter P (take i xs @ xs ! i # drop (Suc i) xs)"
    using id_take_nth_drop[OF assms] by simp
  then show ?thesis by simp
qed

lemma scrambleSettled_keeps:
  assumes "scrambleSettled out v = Some v1"
  shows "v1 = v\<lparr>scramble := scramble v1, scrambleState := scrambleState v1, error := error v1\<rparr>"
  using assms by (cases "(out, v)" rule: scrambleSettled.cases) auto

lemma resume_sameTimer:
  assumes "resume now k out v = Some v1"
  shows "sameTimer v (render v1)"
proof (cases "(now, k, out, v)" rule: resume.cases)
  case (5 now' out' w')
  then obtain v2 where v2: "scrambleSettled out v = Some v2"
    and v1: "v1 = (setTimeout ClearSavingMessage 2000 now v2)\<lparr>loading := False\<rparr>"
    using assms by (auto split: option.splits)
  show ?thesis
    unfolding v1 by (subst scrambleSettled_keeps[OF v2])
      (simp add: sameTimer_def render_def browser_defs loopsAfter_append split: option.splits)
next
  case (6 now' out' w')
  then have v2: "scrambleSettled out v = Some v1"
    using assms by auto
  show ?thesis
    by (subst scrambleSettled_keeps[OF v2]) (simp add: sameTimer_def render_def)
qed (use assms in \<open>auto simp: sameTimer_def render_def timer_defs browser_defs loopsAfter_append
       split: option.splits\<close>)

lemma resume_loading:
  assumes "resume now k out v = Some v1"
  shows "if blocking k
         then \<not> loading v1 \<and> filter blocking (inflight v1) = filter blocking (inflight v) \<or>
              loading v1 = loading v \<and>
              length (filter blocking (inflight v1)) = Suc (length (filter blocking (inflight v)))
         else loading v1 = loading v \<and>
              filter blocking (inflight v1) = filter blocking (inflight v)"
proof (cases "(now, k, out, v)" rule: resume.cases)
  case (5 now' out' w')
  then obtain v2 where v2: "scrambleSettled out v = Some v2"
    and v1: "v1 = (setTimeout ClearSavingMessage 2000 now v2)\<lparr>loading := False\<rparr>"
    using assms by (auto split: option.splits)
  show ?thesis
    using 5 unfolding v1 by (subst scrambleSettled_keeps[OF v2]) (simp add: browser_defs)
next
  case (6 now' out' w')
  then have v2: "scrambleSettled out v = Some v1"
    using assms by auto
  show ?thesis
    using 6 by (subst (1 2 3) scrambleSettled_keeps[OF v2]) simp
qed (use assms in \<open>auto simp: timer_defs browser_defs\<close>)

lemma pageInv_settle:
  assumes "pageInv w" "mounted w"
  shows "pageInv (render (settle now i out w))"
proof (cases "i < length (inflight w)")
  case False
  then show ?thesis
    using assms by (simp add: settle_def pageInv_def render_def clockLoops_def)
next
  case True
  define rest where "rest = take i (inflight w) @ drop (Suc i) (inflight w)"
  define k where "k = inflight w ! i"
  define v where "v = w\<lparr>inflight := rest\<rparr>"
  have len: "length (filter blocking (inflight w)) =
             length (filter blocking rest) + (if blocking k then 1 else 0)"
    using filter_remove_nth[OF True, of blocking] by (simp add: rest_def k_def)
  have same: "pageInv (render w)"
    using assms(1) by (simp add: pageInv_def render_def clockLoops_def)
  show ?thesis
  proof (cases "resume now k out v")
    case None
    then show ?thesis
      using True same by (simp add: settle_def rest_def k_def v_def)
  next
    case (Some v1)
    have eq: "settle now i out w = v1"
      using True Some by (simp add: settle_def rest_def k_def v_def)
    have st: "sameTimer w (render v1)"
      using resume_sameTimer[OF Some] by (simp add: sameTimer_def v_def)
    have ld: "(loading v1 \<longrightarrow> length (filter blocking (inflight v1)) = 1) \<and>
              (\<not> loading v1 \<longrightarrow> filter blocking (inflight v1) = [])"
      using resume_loading[OF Some] len assms(1)
      by (cases "blocking k"; cases "loading w") (auto simp: pageInv_def v_def)
    show ?thesis
      unfolding eq using st ld assms
      by (simp add: pageInv_def sameTimer_def clockLoops_def render_def)
  qed
qed

subsection \<open>Every reachable state satisfies the invariant\<close>

lemma pageInv_handle: "pageInv w \<Longrightarrow> mounted w \<Longrightarrow> pageInv (render (handle now ev w))"
proof (cases ev)
  case ClickScoreSolve
  assume "pageInv w" "mounted w"
  then show ?thesis
    using ClickScoreSolve pageInv_calls(3)[of w]
    by (cases "lastSolve w") (auto simp: pageInv_def render_def clockLoops_def)
qed (auto simp: pageInv_KeyDown pageInv_KeyUp pageInv_ManualStart pageInv_toggle pageInv_calls
       pageInv_penalty pageInv_reveal pageInv_unmount pageInv_animationFrame pageInv_settle,
     (simp add: pageInv_def render_def clockLoops_def)+)

lemma pageInv_deliver: "pageInv w \<Longrightarrow> pageInv (deliver now ev w)"
  unfolding deliver_def
  by (cases "mounted w") (simp_all add: pageInv_handle pageInv_fireTimers fireTimers_fields)

lemma reachable_pageInv: "reachable w \<Longrightarrow> pageInv w"
  by (induction rule: reachable.induct) (simp_all add: pageInv_mount pageInv_deliver)

lemma reachable_run: "reachable w \<Longrightarrow> reachable (run w es)"
proof (induction es arbitrary: w)
  case Nil
  then show ?case by simp
next
  case (Cons e es)
  obtain now ev where e: "e = (now, ev)" by (cases e) auto
  show ?case
    unfolding e using Cons.IH[OF reachable_deliver[OF Cons.prems]] by simp
qed

section \<open>Proofs: the scenarios\<close>

lemmas run_defs = mount_def initial_def deliver_def fireTimers_def animationFrame_def
  settle_def render_def handler_defs timer_defs browser_defs autoPenaltyOf_def
  INSPECTION_MS_def LATE_PLUS2_MS_def ARMING_THRESHOLD_MS_def Let_def

lemma lateStart_fields:
  "mounted lateStart" "timerState lateStart = running" "\<not> loading lateStart"
  "inspectionEnabled lateStart" "inspectionOverMs lateStart = 1200"
  "startTimeRef lateStart = 16800" "animationFrameRef lateStart = 3"
  "inflight lateStart = [LoadNewScramble, LoadStats]" "scramble lateStart = []"
  "scrambleState lateStart = []"
  "trace lateStart = [GetScramble, GetLiveStats, SetTimeout 1 500 ArmingTimeout, ClearTimeout 1,
     PerformanceNow 600, RequestAnimationFrame 1 InspectionTick,
     RunAnimationFrame 1 InspectionTick, PerformanceNow 16800,
     RequestAnimationFrame 2 InspectionTick, CancelAnimationFrame 2, PerformanceNow 16800,
     RequestAnimationFrame 3 StopwatchTick]"
  by (simp_all add: lateStart_def run_defs)

lemma reachable_lateStart: "reachable lateStart"
  unfolding lateStart_def by (rule reachable_run[OF reachable_mount])

lemma saving_fields:
  "mounted saving" "timerState saving = idle" "loading saving"
  "inflight saving = [LoadNewScramble, LoadStats, SaveCreateSolve ''+2'']"
  "timers saving = []" "frames saving = []"
  by (simp_all add: saving_def lateStart_def run_defs)

lemma saveFailed_fields:
  "mounted saveFailed" "timerState saveFailed = idle" "\<not> loading saveFailed"
  "inflight saveFailed = [LoadNewScramble, LoadStats]"
  "error saveFailed = ''Failed to save solve''"
  by (simp_all add: saveFailed_def saving_def lateStart_def run_defs)

lemma saved_fields:
  "mounted saved" "timerState saved = idle" "\<not> loading saved" "\<not> solutionLoading saved"
  "inflight saved = [LoadNewScramble, LoadStats]"
  "lastSolve saved = Some \<lparr>solveId = 7, mlScore = None\<rparr>"
  "lastSolvePenalty saved = ''+2''" "scrambleState saved = solved54"
  "inspectionEnabled saved" "trace saved = trace saving @
     [ScoreSolve 7, GetScramble, SetTimeout 2 2000 ClearSavingMessage]"
  by (simp_all add: saved_def saving_def lateStart_def run_defs loadNewScramble_def)

lemma secondSolve_fields:
  "mounted secondSolve" "timerState secondSolve = running" "\<not> loading secondSolve"
  "lastSolve secondSolve = Some \<lparr>solveId = 7, mlScore = None\<rparr>"
  "inspectionEnabled secondSolve" "inspectionOverMs secondSolve = 0"
  "frames secondSolve = [(5, StopwatchTick)]" "scramble secondSolve = ''R U R2 F''"
  "scrambleState secondSolve = solved54" "startTimeRef secondSolve = 31000"
  "inflight secondSolve = [LoadNewScramble, LoadStats]"
  by (simp_all add: secondSolve_def saved_def saving_def lateStart_def run_defs)


section \<open>Stopping the timer\<close>

lemma deliver_stop:
  assumes "pageInv w" "mounted w" "timerState w = running" "\<not> loading w"
    and "ev = KeyDownSpace wall \<or> ev = ClickStart"
  shows "trace (deliver now ev w) =
           trace w @ [CancelAnimationFrame (animationFrameRef w), PerformanceNow now,
             CreateSolve \<lparr>reqScramble = scramble w, reqTimeMs = \<lfloor>now - startTimeRef w\<rfloor>,
               reqPenalty = (if autoPenaltyOf (inspectionEnabled w) (inspectionOverMs w) = ''OK''
                             then None
                             else Some (autoPenaltyOf (inspectionEnabled w) (inspectionOverMs w))),
               reqSource = ''timer'', reqEvent = ''3x3'',
               reqState = (if scrambleState w = [] then None else Some (scrambleState w))\<rparr>]"
    and "inflight (deliver now ev w) =
           inflight w @ [SaveCreateSolve (autoPenaltyOf (inspectionEnabled w) (inspectionOverMs w))]"
    and "frames (deliver now ev w) = []"
    and "timerState (deliver now ev w) = idle"
    and "currentTime (deliver now ev w) = 0"
    and "loading (deliver now ev w)"
    and "mounted (deliver now ev w)"
proof -
  let ?v = "fireTimers now w"
  have v: "timerState ?v = running" "timerStateRef ?v = running" "\<not> loadingRef ?v"
    "\<not> loading ?v" "animationFrameRef ?v \<noteq> 0"
    "frames ?v = [(animationFrameRef w, StopwatchTick)]"
    using assms(1-4) by (simp_all add: fireTimers_fields) (simp_all add: pageInv_def clockLoops_def)
  have h: "handle now ev ?v = stopTimer now ?v"
    using assms(5) v by (auto simp: handleSpaceDown_def handleManualStart_def)
  show "trace (deliver now ev w) =
           trace w @ [CancelAnimationFrame (animationFrameRef w), PerformanceNow now,
             CreateSolve \<lparr>reqScramble = scramble w, reqTimeMs = \<lfloor>now - startTimeRef w\<rfloor>,
               reqPenalty = (if autoPenaltyOf (inspectionEnabled w) (inspectionOverMs w) = ''OK''
                             then None
                             else Some (autoPenaltyOf (inspectionEnabled w) (inspectionOverMs w))),
               reqSource = ''timer'', reqEvent = ''3x3'',
               reqState = (if scrambleState w = [] then None else Some (scrambleState w))\<rparr>]"
    and "inflight (deliver now ev w) =
           inflight w @ [SaveCreateSolve (autoPenaltyOf (inspectionEnabled w) (inspectionOverMs w))]"
    and "frames (deliver now ev w) = []"
    and "timerState (deliver now ev w) = idle"
    and "currentTime (deliver now ev w) = 0"
    and "loading (deliver now ev w)"
    and "mounted (deliver now ev w)"
    using assms(1,2) v unfolding deliver_def h
    by (simp_all add: fireTimers_fields render_def stopTimer_def cancelStopwatch_def
          saveSolveImmediately_def browser_defs Let_def)
qed

section \<open>What the handlers do to the timer state\<close>

lemma render_id: "timerStateRef v = timerState v \<Longrightarrow> loadingRef v = loading v \<Longrightarrow> render v = v"
  by (simp add: render_def)

lemma timerState_render [simp]: "timerState (render v) = timerState v"
  by (simp add: render_def)

lemma deliver_guarded:
  assumes "pageInv w" "mounted w" "loading w"
    and "ev = KeyDownSpace wall \<or> ev = KeyUpSpace \<or> ev = ClickStart"
  shows "deliver now ev w = fireTimers now w"
proof -
  let ?v = "fireTimers now w"
  have v: "loadingRef ?v" "loading ?v" "timerStateRef ?v = timerState ?v"
    using assms(1,3) by (simp_all add: fireTimers_fields) (simp add: pageInv_def)
  have "handle now ev ?v = ?v"
    using assms(4) v by (auto simp: handleSpaceDown_def handleSpaceUp_def)
  then show ?thesis
    using assms(1,2) v by (simp add: deliver_def fireTimers_fields render_id)
qed

lemma handle_timerState:
  assumes "timerStateRef v = timerState v" "\<not> loadingRef v" "\<not> loading v"
  shows "timerState (handle now (KeyDownSpace wall) v) =
           (case timerState v of idle \<Rightarrow> arming | inspection \<Rightarrow> running | running \<Rightarrow> idle
            | s \<Rightarrow> s)"
    and "timerState (handle now KeyUpSpace v) =
           (case timerState v of arming \<Rightarrow> idle
            | ready \<Rightarrow> (if inspectionEnabled v then inspection else running) | s \<Rightarrow> s)"
    and "timerState (handle now ClickStart v) =
           (case timerState v of
              idle \<Rightarrow> (if inspectionEnabled v then inspection else running)
            | inspection \<Rightarrow> running | running \<Rightarrow> idle | s \<Rightarrow> s)"
  using assms by (cases "timerState v"; simp add: handler_defs timer_defs browser_defs Let_def)+

lemma foldl_runFrame_timerState:
  "timerState (foldl (\<lambda>v f. runFrame now f v) v fs) = timerState v"
proof (induction fs arbitrary: v)
  case Nil
  then show ?case by simp
next
  case (Cons f fs)
  obtain h cb where f: "f = (h, cb)" by (cases f) auto
  show ?case
    unfolding f by (cases cb) (simp_all add: Cons.IH browser_defs Let_def)
qed

lemma handle_other_timerState:
  assumes "\<not> timerEvent ev"
  shows "timerState (handle now ev v) = timerState v"
proof (cases ev)
  case (Settle i out)
  show ?thesis
  proof (cases "i < length (inflight v)")
    case False
    then show ?thesis using Settle by (simp add: settle_def)
  next
    case True
    show ?thesis
    proof (cases "resume now (inflight v ! i) out (v\<lparr>inflight := take i (inflight v) @ drop (Suc i) (inflight v)\<rparr>)")
      case None
      then show ?thesis using Settle True by (simp add: settle_def)
    next
      case (Some v1)
      then show ?thesis
        using Settle True resume_sameTimer[OF Some] by (simp add: settle_def sameTimer_def)
    qed
  qed
qed (use assms in \<open>auto simp: timerEvent_def handler_defs timer_defs browser_defs Let_def
       animationFrame_def foldl_runFrame_timerState split: option.splits\<close>)


lemma loading_iff_blocking:
  assumes "pageInv w"
  shows "loading w \<longleftrightarrow> (\<exists>k\<in>set (inflight w). blocking k)"
proof (cases "loading w")
  case True
  then have "filter blocking (inflight w) \<noteq> []"
    using assms by (auto simp: pageInv_def)
  then show ?thesis using True by (auto simp: filter_empty_conv)
next
  case False
  then have "filter blocking (inflight w) = []"
    using assms by (simp add: pageInv_def)
  then show ?thesis using False by (auto simp: filter_empty_conv)
qed

lemma deliver_timerState:
  assumes "pageInv w" "mounted w" "\<not> loading w"
  shows "timerState (deliver now (KeyDownSpace wall) w) =
           (case timerState (fireTimers now w) of
              idle \<Rightarrow> arming | inspection \<Rightarrow> running | running \<Rightarrow> idle | s \<Rightarrow> s)"
    and "timerState (deliver now KeyUpSpace w) =
           (case timerState (fireTimers now w) of
              arming \<Rightarrow> idle
            | ready \<Rightarrow> (if inspectionEnabled w then inspection else running) | s \<Rightarrow> s)"
    and "timerState (deliver now ClickStart w) =
           (case timerState (fireTimers now w) of
              idle \<Rightarrow> (if inspectionEnabled w then inspection else running)
            | inspection \<Rightarrow> running | running \<Rightarrow> idle | s \<Rightarrow> s)"
proof -
  let ?v = "fireTimers now w"
  have v: "timerStateRef ?v = timerState ?v" "\<not> loadingRef ?v" "\<not> loading ?v"
    "inspectionEnabled ?v = inspectionEnabled w"
    using assms(1,3) by (simp_all add: fireTimers_fields) (simp add: pageInv_def)
  show "timerState (deliver now (KeyDownSpace wall) w) =
           (case timerState (fireTimers now w) of
              idle \<Rightarrow> arming | inspection \<Rightarrow> running | running \<Rightarrow> idle | s \<Rightarrow> s)"
    and "timerState (deliver now KeyUpSpace w) =
           (case timerState (fireTimers now w) of
              arming \<Rightarrow> idle
            | ready \<Rightarrow> (if inspectionEnabled w then inspection else running) | s \<Rightarrow> s)"
    and "timerState (deliver now ClickStart w) =
           (case timerState (fireTimers now w) of
              idle \<Rightarrow> (if inspectionEnabled w then inspection else running)
            | inspection \<Rightarrow> running | running \<Rightarrow> idle | s \<Rightarrow> s)"
    using assms(2) handle_timerState[OF v(1-3), of now] v(4)
    by (simp_all add: deliver_def)
qed

lemma deliver_other_timerState:
  assumes "pageInv w" "\<not> timerEvent ev"
  shows "timerState (deliver now ev w) = timerState (fireTimers now w)"
proof (cases "mounted w")
  case True
  then show ?thesis
    using assms(2) by (simp add: deliver_def handle_other_timerState)
next
  case False
  then have "armingOnly (timers w) = []"
    using assms(1) by (simp add: pageInv_def)
  then have "\<not> armDue now w"
    by (simp add: armDue_armingOnly)
  then show ?thesis
    using False assms(1) by (simp add: deliver_def fireTimers_fields)
qed

section \<open>Pressing and releasing the key\<close>


lemma fireTimers_idle:
  assumes "pageInv w" "timerState w = idle"
  shows "timerState (fireTimers u w) = idle"
  using assms by (simp add: fireTimers_fields)


section \<open>Events while the key is held\<close>










section \<open>Clicks that call the API\<close>

lemma deliver_reveal:
  assumes "pageInv w" "mounted w" "timerState w \<noteq> running" "\<not> loading w"
    "\<not> solutionLoading w"
  shows "length (scrambleState w) = 54 \<Longrightarrow>
           trace (deliver now (ClickRevealOptimal True) w) =
             trace w @ [Confirm True, GetOptimalSolution (scrambleState w)] \<and>
           inflight (deliver now (ClickRevealOptimal True) w) = inflight w @ [RevealOptimal] \<and>
           solutionLoading (deliver now (ClickRevealOptimal True) w) \<and>
           error (deliver now (ClickRevealOptimal True) w) = []"
    and "length (scrambleState w) \<noteq> 54 \<Longrightarrow>
           trace (deliver now (ClickRevealOptimal True) w) = trace w @ [Confirm True] \<and>
           inflight (deliver now (ClickRevealOptimal True) w) = inflight w \<and>
           \<not> solutionLoading (deliver now (ClickRevealOptimal True) w) \<and>
           error (deliver now (ClickRevealOptimal True) w) =
             ''Missing cube state for this scramble. (Expected 54 chars.)''"
proof -
  let ?v = "fireTimers now w"
  have v: "timerState ?v \<noteq> running" "\<not> loading ?v" "\<not> solutionLoading ?v"
    "scrambleState ?v = scrambleState w" "trace ?v = trace w" "inflight ?v = inflight w"
    "mounted ?v"
    using assms by (simp_all add: fireTimers_fields)
  show "length (scrambleState w) = 54 \<Longrightarrow>
           trace (deliver now (ClickRevealOptimal True) w) =
             trace w @ [Confirm True, GetOptimalSolution (scrambleState w)] \<and>
           inflight (deliver now (ClickRevealOptimal True) w) = inflight w @ [RevealOptimal] \<and>
           solutionLoading (deliver now (ClickRevealOptimal True) w) \<and>
           error (deliver now (ClickRevealOptimal True) w) = []"
    using assms(2) v
    by (auto simp: deliver_def render_def handleRevealOptimalSolution_def browser_defs Let_def)
  show "length (scrambleState w) \<noteq> 54 \<Longrightarrow>
           trace (deliver now (ClickRevealOptimal True) w) = trace w @ [Confirm True] \<and>
           inflight (deliver now (ClickRevealOptimal True) w) = inflight w \<and>
           \<not> solutionLoading (deliver now (ClickRevealOptimal True) w) \<and>
           error (deliver now (ClickRevealOptimal True) w) =
             ''Missing cube state for this scramble. (Expected 54 chars.)''"
    using assms(2) v
    by (auto simp: deliver_def render_def handleRevealOptimalSolution_def browser_defs Let_def)
qed

lemma deliver_penalty:
  assumes "pageInv w" "mounted w" "\<not> loading w" "lastSolve w = Some sv"
  shows "trace (deliver now (ClickPenalty b) w) =
           trace w @ [UpdateSolve (solveId sv)
                        (if buttonPenalty b = ''OK'' then None else Some (buttonPenalty b))]"
    and "inflight (deliver now (ClickPenalty b) w) = inflight w @ [UpdatePenalty (buttonPenalty b)]"
proof -
  let ?v = "fireTimers now w"
  have v: "\<not> loading ?v" "lastSolve ?v = Some sv" "trace ?v = trace w" "inflight ?v = inflight w"
    "mounted ?v"
    using assms by (simp_all add: fireTimers_fields)
  show "trace (deliver now (ClickPenalty b) w) =
           trace w @ [UpdateSolve (solveId sv)
                        (if buttonPenalty b = ''OK'' then None else Some (buttonPenalty b))]"
    and "inflight (deliver now (ClickPenalty b) w) = inflight w @ [UpdatePenalty (buttonPenalty b)]"
    using assms(2) v
    by (simp_all add: deliver_def render_def handleUpdateLastSolvePenalty_def browser_defs)
qed

section \<open>A settling save makes progress\<close>

lemma stagesLeft_blocking: "stagesLeft k = 0 \<longleftrightarrow> \<not> blocking k"
  by (cases k) simp_all

lemma saveStages_zero: "saveStages w = 0 \<longleftrightarrow> \<not> (\<exists>k\<in>set (inflight w). blocking k)"
  by (simp add: saveStages_def stagesLeft_blocking)

lemma sum_list_remove_nth:
  assumes "i < length xs"
  shows "sum_list (map f xs) = sum_list (map f (take i xs @ drop (Suc i) xs)) + (f (xs ! i) :: nat)"
proof -
  have "map f xs = map f (take i xs @ xs ! i # drop (Suc i) xs)"
    using id_take_nth_drop[OF assms] by simp
  then show ?thesis by simp
qed

lemma resume_stages:
  assumes "answers k out" "blocking k"
  shows "\<exists>v1. resume now k out v = Some v1 \<and>
           sum_list (map stagesLeft (inflight v1)) <
           sum_list (map stagesLeft (inflight v)) + stagesLeft k"
  using assms
  by (cases "(now, k, out, v)" rule: resume.cases)
     (auto simp: timer_defs browser_defs split: option.splits elim!: answers.elims scrambleSettled.elims)

lemma settle_progress:
  assumes "pageInv w" "mounted w" "i < length (inflight w)" "blocking (inflight w ! i)"
    "answers (inflight w ! i) out"
  shows "saveStages (deliver now (Settle i out) w) < saveStages w"
proof -
  let ?v = "fireTimers now w"
  let ?r = "?v\<lparr>inflight := take i (inflight ?v) @ drop (Suc i) (inflight ?v)\<rparr>"
  have f: "inflight ?v = inflight w" "mounted ?v"
    using assms(1,2) by (simp_all add: fireTimers_fields)
  obtain v1 where v1: "resume now (inflight w ! i) out ?r = Some v1"
    and s: "sum_list (map stagesLeft (inflight v1)) <
            sum_list (map stagesLeft (inflight ?r)) + stagesLeft (inflight w ! i)"
    using resume_stages[OF assms(5,4), of now ?r] by blast
  have d: "deliver now (Settle i out) w = render v1"
    using f assms(2,3) v1 by (simp add: deliver_def settle_def)
  show ?thesis
    unfolding d using s sum_list_remove_nth[OF assms(3), of stagesLeft] f
    by (simp add: saveStages_def render_def)
qed

section \<open>Facts about the scenarios\<close>

lemma mount_fields:
  "mounted (mount stored)" "timerState (mount stored) = idle" "\<not> loading (mount stored)"
  "\<not> solutionLoading (mount stored)" "scrambleState (mount stored) = []"
  "inspectionEnabled (mount None)" "\<not> inspectionEnabled (mount (Some ''false''))"
  "trace (mount stored) = [GetScramble, GetLiveStats]"
  "inflight (mount stored) = [LoadNewScramble, LoadStats]"
  "nextFrameHandle (mount stored) = 1" "nextTimerHandle (mount stored) = 1"
  by (simp_all add: run_defs)

lemma reachable_scenarios:
  "reachable saving" "reachable saveFailed" "reachable saved" "reachable secondSolve"
proof -
  show a: "reachable saving"
    unfolding saving_def by (rule reachable_deliver[OF reachable_lateStart])
  show "reachable saveFailed"
    unfolding saveFailed_def by (rule reachable_deliver[OF a])
  show b: "reachable saved"
    unfolding saved_def by (rule reachable_run[OF a])
  show "reachable secondSolve"
    unfolding secondSolve_def by (rule reachable_run[OF b])
qed

lemma scenario_idle:
  "timerState (fireTimers u saving) = idle" "timerState (fireTimers u saveFailed) = idle"
  "timerState (fireTimers u saved) = idle"
  by (simp_all add: fireTimers_idle reachable_pageInv reachable_scenarios saving_fields
        saveFailed_fields saved_fields)

section \<open>The automatic penalty\<close>



section \<open>The guard on the transition handlers\<close>

text \<open>
  C2. While a save or a penalty update is in flight (a call of \<open>saveSolveImmediately\<close> at
  any of its three stages, or \<open>updateSolve\<close>), the space key going down, the space key going
  up and a click on the Start button change nothing: the page is left as the passage of
  time alone leaves it, with no new call, no new frame request and no new call in flight.
  When no such call is in flight, \<open>loading\<close> is off and the three handlers move the timer
  state as their code says. Every answer to the pending call of a save, a response or a
  rejection, leaves the save with fewer stages to go, and a save with no stage to go is
  no longer in flight.
\<close>

theorem input_ignored_while_saving:
  assumes "reachable w" "mounted w"
  shows "((\<exists>k\<in>set (inflight w). blocking k) \<longrightarrow>
            deliver now (KeyDownSpace wall) w = fireTimers now w \<and>
            deliver now KeyUpSpace w = fireTimers now w \<and>
            deliver now ClickStart w = fireTimers now w \<and>
            trace (fireTimers now w) = trace w \<and> frames (fireTimers now w) = frames w \<and>
            inflight (fireTimers now w) = inflight w) \<and>
         (\<not> (\<exists>k\<in>set (inflight w). blocking k) \<longrightarrow>
            \<not> loading w \<and>
            timerState (deliver now (KeyDownSpace wall) w) =
              (case timerState (fireTimers now w) of
                 idle \<Rightarrow> arming | inspection \<Rightarrow> running | running \<Rightarrow> idle | s \<Rightarrow> s) \<and>
            timerState (deliver now KeyUpSpace w) =
              (case timerState (fireTimers now w) of
                 arming \<Rightarrow> idle
               | ready \<Rightarrow> (if inspectionEnabled w then inspection else running) | s \<Rightarrow> s) \<and>
            timerState (deliver now ClickStart w) =
              (case timerState (fireTimers now w) of
                 idle \<Rightarrow> (if inspectionEnabled w then inspection else running)
               | inspection \<Rightarrow> running | running \<Rightarrow> idle | s \<Rightarrow> s)) \<and>
         (i < length (inflight w) \<and> blocking (inflight w ! i) \<and> answers (inflight w ! i) out \<longrightarrow>
            saveStages (deliver now (Settle i out) w) < saveStages w) \<and>
         (saveStages w = 0) = (\<not> (\<exists>k\<in>set (inflight w). blocking k))"
proof -
  have inv: "pageInv w" by (rule reachable_pageInv[OF assms(1)])
  have p: "i < length (inflight w) \<and> blocking (inflight w ! i) \<and> answers (inflight w ! i) out \<longrightarrow>
            saveStages (deliver now (Settle i out) w) < saveStages w"
    using settle_progress[OF inv assms(2), of i out now] by simp
  show ?thesis
  proof (cases "loading w")
    case True
    then show ?thesis
      using loading_iff_blocking[OF inv] deliver_guarded[OF inv assms(2) True, of _ _ now] inv p
      by (simp add: fireTimers_fields saveStages_zero)
  next
    case False
    then show ?thesis
      using loading_iff_blocking[OF inv] deliver_timerState[OF inv assms(2) False, of now] p
      by (simp add: saveStages_zero)
  qed
qed

theorem input_ignored_while_saving_witness:
  "reachable saving \<and> mounted saving \<and> (\<exists>k\<in>set (inflight saving). blocking k) \<and>
   deliver 25000 (KeyDownSpace 0) saving = fireTimers 25000 saving \<and>
   deliver 25000 KeyUpSpace saving = fireTimers 25000 saving \<and>
   deliver 25000 ClickStart saving = fireTimers 25000 saving \<and>
   trace (fireTimers 25000 saving) = trace saving \<and>
   saveStages saving = 3 \<and> saveStages (deliver 24900 (Settle 2 Rejected) saving) = 0 \<and>
   saveStages
     (deliver 24900 (Settle 2 (Resolved (SolveResponse \<lparr>solveId = 7, mlScore = None\<rparr>))) saving)
     = 2 \<and>
   reachable saveFailed \<and> mounted saveFailed \<and>
   \<not> (\<exists>k\<in>set (inflight saveFailed). blocking k) \<and>
   timerState (deliver 25000 (KeyDownSpace 0) saveFailed) = arming \<and>
   reachable saved \<and> mounted saved \<and> \<not> (\<exists>k\<in>set (inflight saved). blocking k) \<and>
   timerState (deliver 26000 (KeyDownSpace 0) saved) = arming \<and>
   timerState (deliver 26000 ClickStart saved) = inspection"
proof -
  have s: "saveStages saving = 3" "saveStages (deliver 24900 (Settle 2 Rejected) saving) = 0"
    "saveStages
       (deliver 24900 (Settle 2 (Resolved (SolveResponse \<lparr>solveId = 7, mlScore = None\<rparr>)))
          saving) = 2"
    by (simp_all add: saveStages_def saving_def lateStart_def run_defs)
  show ?thesis
    using input_ignored_while_saving[OF reachable_scenarios(1) saving_fields(1),
        where now = 25000 and wall = 0 and i = 2 and out = Rejected]
      input_ignored_while_saving[OF reachable_scenarios(2) saveFailed_fields(1),
        where now = 25000 and wall = 0 and i = 0 and out = Rejected]
      input_ignored_while_saving[OF reachable_scenarios(3) saved_fields(1),
        where now = 26000 and wall = 0 and i = 0 and out = Rejected]
      reachable_scenarios s
    by (simp add: saving_fields saveFailed_fields saved_fields scenario_idle lateStart_fields)
qed


section \<open>The stop sequence\<close>




section \<open>The transition table\<close>

text \<open>
  C4, as amended. In every reachable state the timer state changes only along an edge of
  the table (idle to arming, arming to idle, arming to ready, ready to inspection, ready to
  running, inspection to running, running to idle), with one addition: a click on the Start
  button in state idle goes straight to inspection when inspection is enabled and straight
  to running when it is not. A task is two steps, the timeouts that are due and then the
  handler; each step stays put or follows one edge.
\<close>

theorem transitions_follow_table_or_start_button:
  assumes "reachable w"
  shows "(timerState (fireTimers now w) = timerState w \<or>
          specTransition (timerState w) (timerState (fireTimers now w))) \<and>
         (timerState (deliver now ev w) = timerState (fireTimers now w) \<or>
          specTransition (timerState (fireTimers now w)) (timerState (deliver now ev w)) \<or>
          ev = ClickStart \<and> timerState (fireTimers now w) = idle \<and>
          timerState (deliver now ev w) = (if inspectionEnabled w then inspection else running))"
proof -
  have inv: "pageInv w" by (rule reachable_pageInv[OF assms])
  have a: "timerState (fireTimers now w) = timerState w \<or>
          specTransition (timerState w) (timerState (fireTimers now w))"
    using inv by (simp add: fireTimers_fields)
  have b: "timerState (deliver now ev w) = timerState (fireTimers now w) \<or>
          specTransition (timerState (fireTimers now w)) (timerState (deliver now ev w)) \<or>
          ev = ClickStart \<and> timerState (fireTimers now w) = idle \<and>
          timerState (deliver now ev w) = (if inspectionEnabled w then inspection else running)"
  proof (cases "timerEvent ev \<and> mounted w")
    case False
    then show ?thesis
    proof (cases "timerEvent ev")
      case True
      then have "\<not> mounted w" using False by simp
      then have "armingOnly (timers w) = []"
        using inv by (simp add: pageInv_def)
      then have "\<not> armDue now w"
        by (simp add: armDue_armingOnly)
      then show ?thesis
        using \<open>\<not> mounted w\<close> inv by (simp add: deliver_def fireTimers_fields)
    next
      case False
      then show ?thesis using deliver_other_timerState[OF inv] by simp
    qed
  next
    case True
    then have ev: "ev = ClickStart \<or> ev = KeyUpSpace \<or> (\<exists>wall. ev = KeyDownSpace wall)"
      by (cases ev) (simp_all add: timerEvent_def)
    show ?thesis
    proof (cases "loading w")
      case True
      then show ?thesis
        using ev deliver_guarded[OF inv, of ev _ now] \<open>timerEvent ev \<and> mounted w\<close> by auto
    next
      case False
      have ns: "timerState (fireTimers now w) \<noteq> stopped"
        using pageInv_fireTimers[OF inv, of now] by (simp add: pageInv_def)
      show ?thesis
        using ev ns deliver_timerState[OF inv _ False, of now] True
        by (cases "timerState (fireTimers now w)"; cases "inspectionEnabled w") auto
    qed
  qed
  show ?thesis using a b by simp
qed

theorem transitions_follow_table_or_start_button_witness:
  "reachable (mount None) \<and> timerState (fireTimers 0 (mount None)) = idle \<and>
   timerState (deliver 0 ClickStart (mount None)) = inspection \<and>
   reachable lateStart \<and> timerState (fireTimers 24800 lateStart) = running \<and>
   specTransition running (timerState (deliver 24800 (KeyDownSpace 0) lateStart))"
  using transitions_follow_table_or_start_button[OF reachable_mount, of 0 None ClickStart]
    transitions_follow_table_or_start_button[OF reachable_lateStart, of 24800 "KeyDownSpace 0"]
    reachable_mount[of None] reachable_lateStart
  by (simp add: run_defs lateStart_def)

text \<open>
  C4 as stated fails: a click on Start in state idle reaches inspection, or running when
  inspection is disabled, and neither is an edge of the table.
\<close>

theorem start_button_skips_arming_counterexample:
  "reachable (mount None) \<and> timerState (mount None) = idle \<and>
   timerState (deliver 0 ClickStart (mount None)) = inspection \<and>
   \<not> specTransition idle inspection \<and>
   reachable (mount (Some ''false'')) \<and> timerState (mount (Some ''false'')) = idle \<and>
   timerState (deliver 0 ClickStart (mount (Some ''false''))) = running \<and>
   \<not> specTransition idle running"
  using reachable_mount[of None] reachable_mount[of "Some ''false''"]
  by (simp add: run_defs)

section \<open>Holding the space key\<close>






section \<open>Clock loops\<close>

text \<open>
  C7. In every reachable state at most one frame callback is pending, and in the whole
  history of calls every \<open>requestAnimationFrame\<close> was made when no frame callback was
  pending: any earlier one had run or had been cancelled before the new handle was issued.
\<close>

theorem one_clock_loop:
  "reachable w \<Longrightarrow>
   length (frames w) \<le> 1 \<and> loopsAfter [] (trace w) = Some (map fst (frames w))"
  using reachable_pageInv[of w] by (simp add: pageInv_def clockLoops_def)


theorem one_clock_loop_witness:
  "reachable secondSolve \<and> frames secondSolve = [(5, StopwatchTick)] \<and>
   length (frames secondSolve) \<le> 1 \<and> loopsAfter [] (trace secondSolve) = Some [5]"
  using one_clock_loop[OF reachable_scenarios(4)] reachable_scenarios(4)
  by (simp add: secondSolve_fields)

section \<open>Calls to the API\<close>

text \<open>
  C8. A confirmed click on the enabled reveal button calls \<open>getOptimalSolution\<close> with
  the stored state when that state has exactly 54 characters; otherwise (the state is
  empty or has another length) no call is made and the error message is set.
\<close>

theorem reveal_requires_54_characters:
  assumes "reachable w" "mounted w" "timerState w \<noteq> running" "\<not> loading w"
    "\<not> solutionLoading w"
  shows "if length (scrambleState w) = 54
         then trace (deliver now (ClickRevealOptimal True) w) =
                trace w @ [Confirm True, GetOptimalSolution (scrambleState w)] \<and>
              inflight (deliver now (ClickRevealOptimal True) w) = inflight w @ [RevealOptimal] \<and>
              error (deliver now (ClickRevealOptimal True) w) = []
         else trace (deliver now (ClickRevealOptimal True) w) = trace w @ [Confirm True] \<and>
              inflight (deliver now (ClickRevealOptimal True) w) = inflight w \<and>
              error (deliver now (ClickRevealOptimal True) w) =
                ''Missing cube state for this scramble. (Expected 54 chars.)''"
  using deliver_reveal[OF reachable_pageInv[OF assms(1)] assms(2-5), of now] by simp

theorem reveal_requires_54_characters_witness:
  "reachable saved \<and> mounted saved \<and> timerState saved \<noteq> running \<and> \<not> loading saved \<and>
   \<not> solutionLoading saved \<and> length (scrambleState saved) = 54 \<and>
   trace (deliver 26000 (ClickRevealOptimal True) saved) =
     trace saved @ [Confirm True, GetOptimalSolution solved54] \<and>
   inflight (deliver 26000 (ClickRevealOptimal True) saved) =
     [LoadNewScramble, LoadStats, RevealOptimal] \<and>
   reachable (mount None) \<and> length (scrambleState (mount None)) = 0 \<and>
   trace (deliver 1 (ClickRevealOptimal True) (mount None)) =
     [GetScramble, GetLiveStats, Confirm True] \<and>
   inflight (deliver 1 (ClickRevealOptimal True) (mount None)) = [LoadNewScramble, LoadStats] \<and>
   error (deliver 1 (ClickRevealOptimal True) (mount None)) =
     ''Missing cube state for this scramble. (Expected 54 chars.)''"
  using reveal_requires_54_characters[OF reachable_scenarios(3) saved_fields(1) _ saved_fields(3,4),
      of 26000]
    reveal_requires_54_characters[OF reachable_mount mount_fields(1) _ mount_fields(3,4),
      of None 1]
    reachable_scenarios(3) reachable_mount[of None]
  by (simp add: saved_fields mount_fields solved54_def)

text \<open>
  C9. The penalty derived at a stop is one of \<open>OK\<close>, \<open>+2\<close>, \<open>DNF\<close> and goes to
  \<open>createSolve\<close> as null when it is \<open>OK\<close> and as the string itself otherwise; a click on
  a penalty button sends null to \<open>updateSolve\<close> for \<open>OK\<close> and the strings \<open>+2\<close> and
  \<open>DNF\<close> for the other two.
\<close>

theorem ok_penalty_sent_as_null:
  assumes "reachable w" "mounted w" "\<not> loading w"
  shows "(timerState w = running \<and> (ev = KeyDownSpace wall \<or> ev = ClickStart) \<longrightarrow>
           (let p = autoPenaltyOf (inspectionEnabled w) (inspectionOverMs w)
            in p \<in> {''OK'', ''+2'', ''DNF''} \<and>
               inflight (deliver now ev w) = inflight w @ [SaveCreateSolve p] \<and>
               last (trace (deliver now ev w)) =
                 CreateSolve \<lparr>reqScramble = scramble w, reqTimeMs = \<lfloor>now - startTimeRef w\<rfloor>,
                   reqPenalty = (if p = ''OK'' then None else Some p),
                   reqSource = ''timer'', reqEvent = ''3x3'',
                   reqState = (if scrambleState w = [] then None else Some (scrambleState w))\<rparr>)) \<and>
         (lastSolve w = Some sv \<longrightarrow>
            trace (deliver now (ClickPenalty b) w) =
              trace w @ [UpdateSolve (solveId sv)
                           (case b of ButtonOK \<Rightarrow> None | ButtonPlus2 \<Rightarrow> Some ''+2''
                            | ButtonDNF \<Rightarrow> Some ''DNF'')])"
proof -
  have inv: "pageInv w" by (rule reachable_pageInv[OF assms(1)])
  have p: "autoPenaltyOf (inspectionEnabled w) (inspectionOverMs w) \<in> {''OK'', ''+2'', ''DNF''}"
    by (simp add: autoPenaltyOf_def)
  have c: "timerState w = running \<and> (ev = KeyDownSpace wall \<or> ev = ClickStart) \<longrightarrow>
           (let p = autoPenaltyOf (inspectionEnabled w) (inspectionOverMs w)
            in p \<in> {''OK'', ''+2'', ''DNF''} \<and>
               inflight (deliver now ev w) = inflight w @ [SaveCreateSolve p] \<and>
               last (trace (deliver now ev w)) =
                 CreateSolve \<lparr>reqScramble = scramble w, reqTimeMs = \<lfloor>now - startTimeRef w\<rfloor>,
                   reqPenalty = (if p = ''OK'' then None else Some p),
                   reqSource = ''timer'', reqEvent = ''3x3'',
                   reqState = (if scrambleState w = [] then None else Some (scrambleState w))\<rparr>)"
  proof
    assume a: "timerState w = running \<and> (ev = KeyDownSpace wall \<or> ev = ClickStart)"
    note s = deliver_stop[OF inv assms(2) conjunct1[OF a] assms(3) conjunct2[OF a], of now]
    show "let p = autoPenaltyOf (inspectionEnabled w) (inspectionOverMs w)
            in p \<in> {''OK'', ''+2'', ''DNF''} \<and>
               inflight (deliver now ev w) = inflight w @ [SaveCreateSolve p] \<and>
               last (trace (deliver now ev w)) =
                 CreateSolve \<lparr>reqScramble = scramble w, reqTimeMs = \<lfloor>now - startTimeRef w\<rfloor>,
                   reqPenalty = (if p = ''OK'' then None else Some p),
                   reqSource = ''timer'', reqEvent = ''3x3'',
                   reqState = (if scrambleState w = [] then None else Some (scrambleState w))\<rparr>"
      unfolding Let_def using p s(1,2) by simp
  qed
  have u: "lastSolve w = Some sv \<longrightarrow>
            trace (deliver now (ClickPenalty b) w) =
              trace w @ [UpdateSolve (solveId sv)
                           (case b of ButtonOK \<Rightarrow> None | ButtonPlus2 \<Rightarrow> Some ''+2''
                            | ButtonDNF \<Rightarrow> Some ''DNF'')]"
    using deliver_penalty(1)[OF inv assms(2,3), of sv now b] by (cases b) simp_all
  show ?thesis using c u by (rule conjI)
qed

theorem ok_penalty_sent_as_null_witness:
  "reachable secondSolve \<and> mounted secondSolve \<and> \<not> loading secondSolve \<and>
   timerState secondSolve = running \<and>
   lastSolve secondSolve = Some \<lparr>solveId = 7, mlScore = None\<rparr> \<and>
   inflight (deliver 40000 ClickStart secondSolve) =
     [LoadNewScramble, LoadStats, SaveCreateSolve ''OK''] \<and>
   last (trace (deliver 40000 ClickStart secondSolve)) =
     CreateSolve \<lparr>reqScramble = ''R U R2 F'', reqTimeMs = 9000, reqPenalty = None,
       reqSource = ''timer'', reqEvent = ''3x3'', reqState = Some solved54\<rparr> \<and>
   trace (deliver 40000 (ClickPenalty ButtonOK) secondSolve) =
     trace secondSolve @ [UpdateSolve 7 None] \<and>
   trace (deliver 40000 (ClickPenalty ButtonDNF) secondSolve) =
     trace secondSolve @ [UpdateSolve 7 (Some ''DNF'')]"
  using ok_penalty_sent_as_null[OF reachable_scenarios(4) secondSolve_fields(1,3),
      where ev = ClickStart and now = 40000 and b = ButtonOK
        and sv = "\<lparr>solveId = 7, mlScore = None\<rparr>"]
    ok_penalty_sent_as_null[OF reachable_scenarios(4) secondSolve_fields(1,3),
      where ev = ClickStart and now = 40000 and b = ButtonDNF
        and sv = "\<lparr>solveId = 7, mlScore = None\<rparr>"]
    reachable_scenarios(4)
  by (simp add: secondSolve_fields autoPenaltyOf_def LATE_PLUS2_MS_def Let_def solved54_def)

section \<open>The state enum\<close>

text \<open>
  C10. The state \<open>stopped\<close> is declared but never assigned: every state the page can
  reach, by any sequence of events, timeouts and teardown, is idle, arming, ready,
  inspection or running.
\<close>

theorem stopped_unreachable:
  "reachable w \<Longrightarrow> timerState w \<in> {idle, arming, ready, inspection, running}"
  using reachable_pageInv[of w] by (cases "timerState w") (simp_all add: pageInv_def)

theorem stopped_unreachable_witness:
  "reachable lateStart \<and> timerState lateStart \<in> {idle, arming, ready, inspection, running}"
  using stopped_unreachable[OF reachable_lateStart] reachable_lateStart by simp

end
